theory Spec2Isabelle
  imports Main "HOL-Library.Multiset"
begin

section \<open>RedGiant: the event index and the feature cache\<close>

text \<open>
  The development embeds \<^verbatim>\<open>BaseEventIndex\<close> (file
  \<^verbatim>\<open>src/main/core/impl/base_event_index-inl.h\<close>), the two overloads of
  \<^verbatim>\<open>FeatureCache::create_or_get_feature\<close> (file
  \<^verbatim>\<open>src/main/model/feature_cache.cc\<close>) and the index start-up block of
  \<^verbatim>\<open>server_main\<close> (file \<^verbatim>\<open>src/main/main.cc\<close>).

  \<^verbatim>\<open>BaseEventIndex\<close> is a template over \<^verbatim>\<open>DocTraits\<close>, so document ids, term ids,
  weights and expire times are type variables here: \<open>'doc\<close>, \<open>'term\<close>, \<open>'w\<close> and \<open>'e\<close>.
  Document ids are ordered (posting lists are kept in ascending document order) and so
  are expire times. The \<^verbatim>\<open>int\<close> counters of the source are unbounded integers: the
  counts are taken to stay inside the range of \<^verbatim>\<open>int\<close>.
\<close>

subsection \<open>Data model\<close>

text \<open>An edit staged in the changeset.\<close>

datatype ('term, 'doc, 'w) edit = UPSERT 'term 'doc 'w | DELETE 'term 'doc

type_synonym ('term, 'doc, 'w) posting_index = "'term \<rightharpoonup> ('doc \<times> 'w) list"

type_synonym ('term, 'doc, 'e) expire_table = "(('term \<times> 'doc) \<times> 'e) list"

text \<open>
  \<^verbatim>\<open>EventTuple\<close>: \<^verbatim>\<open>std::get<0>\<close> is the document id, \<^verbatim>\<open>std::get<1>\<close> the term id,
  \<^verbatim>\<open>std::get<2>\<close> the weight and \<^verbatim>\<open>std::get<3>\<close> the expire time.
\<close>

type_synonym ('term, 'doc, 'w, 'e) event_tuple = "'doc \<times> 'term \<times> 'w \<times> 'e"

text \<open>
  The members of \<^verbatim>\<open>BaseEventIndex\<close>: the posting index of the base class (what readers
  see), \<^verbatim>\<open>max_size_\<close>, \<^verbatim>\<open>expire_\<close> and \<^verbatim>\<open>changeset_\<close>.
\<close>

record ('term, 'doc, 'w, 'e) event_index =
  index :: "('term, 'doc, 'w) posting_index"
  max_size :: nat
  expire :: "('term, 'doc, 'e) expire_table"
  changeset :: "('term, 'doc, 'w) edit list"

subsection \<open>Posting store\<close>

text \<open>
  Modelled from the spec: the posting store of the base class (\<^verbatim>\<open>core/impl/base_index.h\<close>
  and \<^verbatim>\<open>base_index-inl.h\<close> are missing). A posting list is a sequence of
  (document, weight) entries in ascending document order without duplicates; inserting an
  existing document replaces its weight, removal deletes the entry and is a no-op when
  the entry is absent; the list of a term is created on its first upsert and is retained
  when it becomes empty.
\<close>

fun upsert_posting :: "'doc::linorder \<Rightarrow> 'w \<Rightarrow> ('doc \<times> 'w) list \<Rightarrow> ('doc \<times> 'w) list" where
  "upsert_posting d w [] = [(d, w)]"
| "upsert_posting d w ((d', w') # ps) =
     (if d < d' then (d, w) # (d', w') # ps
      else if d = d' then (d, w) # ps
      else (d', w') # upsert_posting d w ps)"

definition remove_posting :: "'doc \<Rightarrow> ('doc \<times> 'w) list \<Rightarrow> ('doc \<times> 'w) list" where
  "remove_posting d ps = filter (\<lambda>p. fst p \<noteq> d) ps"

definition lookup :: "('term, 'doc, 'w) posting_index \<Rightarrow> 'term \<Rightarrow> ('doc \<times> 'w) list" where
  "lookup P t = (case P t of None \<Rightarrow> [] | Some ps \<Rightarrow> ps)"

definition upsert ::
  "'term \<Rightarrow> 'doc::linorder \<Rightarrow> 'w \<Rightarrow> ('term, 'doc, 'w) posting_index \<Rightarrow> ('term, 'doc, 'w) posting_index" where
  "upsert t d w P = P(t \<mapsto> upsert_posting d w (lookup P t))"

definition remove ::
  "'term \<Rightarrow> 'doc \<Rightarrow> ('term, 'doc, 'w) posting_index \<Rightarrow> ('term, 'doc, 'w) posting_index" where
  "remove t d P = (case P t of None \<Rightarrow> P | Some ps \<Rightarrow> P(t \<mapsto> remove_posting d ps))"

text \<open>The weight a reader finds for a (term, document) pair, if the posting is present.\<close>

definition weight_of :: "('term, 'doc, 'w) posting_index \<Rightarrow> 'term \<Rightarrow> 'doc \<Rightarrow> 'w option" where
  "weight_of P t d = map_of (lookup P t) d"

subsection \<open>Changeset\<close>

text \<open>
  Modelled from the spec: the changeset and the three helpers of the base class that
  \<^verbatim>\<open>BaseEventIndex\<close> calls (\<^verbatim>\<open>create_update_internal\<close>, \<^verbatim>\<open>remove_internal\<close>,
  \<^verbatim>\<open>apply_internal\<close>; their file \<^verbatim>\<open>base_index-inl.h\<close> is missing). The changeset is an
  ordered log of edits; staging appends to it and counts one logical edit; publication
  reduces the log in order into the posting index, clears the log and returns the number
  of edits applied.
\<close>

definition create_update_internal ::
  "'doc \<Rightarrow> 'term \<Rightarrow> 'w \<Rightarrow> ('term, 'doc, 'w) edit list \<Rightarrow> int \<times> ('term, 'doc, 'w) edit list" where
  "create_update_internal doc_id term_id weights cs = (1, cs @ [UPSERT term_id doc_id weights])"

definition remove_internal ::
  "'doc \<Rightarrow> 'term \<Rightarrow> ('term, 'doc, 'w) edit list \<Rightarrow> int \<times> ('term, 'doc, 'w) edit list" where
  "remove_internal doc_id term_id cs = (1, cs @ [DELETE term_id doc_id])"

fun apply_edit ::
  "('term, 'doc::linorder, 'w) edit \<Rightarrow> ('term, 'doc, 'w) posting_index \<Rightarrow> ('term, 'doc, 'w) posting_index" where
  "apply_edit (UPSERT t d w) P = upsert t d w P"
| "apply_edit (DELETE t d) P = remove t d P"

definition apply_internal ::
  "('term, 'doc::linorder, 'w) edit list \<Rightarrow> ('term, 'doc, 'w) posting_index \<Rightarrow>
     int \<times> ('term, 'doc, 'w) posting_index \<times> ('term, 'doc, 'w) edit list" where
  "apply_internal cs P = (int (length cs), fold apply_edit cs P, [])"

subsection \<open>Expiration table\<close>

text \<open>
  Modelled from the spec: the expiration table (the class of \<^verbatim>\<open>expire_\<close> is missing).
  It maps a (term, document) key to one deadline; \<open>expire_table_update\<close> replaces the deadline of
  a tracked key and adds an untracked one; \<open>expire_table_size\<close> is the number of tracked pairs.
\<close>

fun expire_table_update :: "'k \<Rightarrow> 'e \<Rightarrow> ('k \<times> 'e) list \<Rightarrow> ('k \<times> 'e) list" where
  "expire_table_update key t [] = [(key, t)]"
| "expire_table_update key t ((key', t') # tab) =
     (if key' = key then (key, t) # tab else (key', t') # expire_table_update key t tab)"

definition expire_table_size :: "('k \<times> 'e) list \<Rightarrow> nat" where
  "expire_table_size tab = length tab"

text \<open>
  Modelled from the spec: \<open>expire_with_limit\<close>. The minimum-deadline view of the table is
  its entries in ascending deadline order. The oldest entry is popped while it is due
  (deadline \<open>\<le> now\<close>) and fewer than \<open>limit\<close> entries have been popped, or while the table
  holds more than \<open>limit\<close> pairs (capacity shedding). \<^verbatim>\<open>BaseEventIndex::apply\<close> passes
  \<^verbatim>\<open>max_size_\<close> as the one limit, which therefore is both the batch cap and the capacity.
  The result is the popped entries, oldest first, and the table that remains.
\<close>

fun pop_loop ::
  "'e::linorder \<Rightarrow> nat \<Rightarrow> nat \<Rightarrow> ('k \<times> 'e) list \<Rightarrow> ('k \<times> 'e) list \<times> ('k \<times> 'e) list" where
  "pop_loop now limit n [] = ([], [])"
| "pop_loop now limit n (p # ps) =
     (if (snd p \<le> now \<and> n < limit) \<or> limit < length (p # ps)
      then (case pop_loop now limit (Suc n) ps of (popped, rest) \<Rightarrow> (p # popped, rest))
      else ([], p # ps))"

definition expire_with_limit ::
  "'e::linorder \<Rightarrow> nat \<Rightarrow> ('k \<times> 'e) list \<Rightarrow> ('k \<times> 'e) list \<times> ('k \<times> 'e) list" where
  "expire_with_limit now limit tab = pop_loop now limit 0 (sort_key snd tab)"

subsection \<open>Event index\<close>

text \<open>
  \<^verbatim>\<open>BaseEventIndex::update_expire_internal\<close>: the key handed to the table is
  \<^verbatim>\<open>{term_id, doc_id}\<close>.
\<close>

definition update_expire_internal ::
  "'doc \<Rightarrow> 'term \<Rightarrow> 'e \<Rightarrow> ('term, 'doc, 'w, 'e) event_index \<Rightarrow> ('term, 'doc, 'w, 'e) event_index" where
  "update_expire_internal doc_id term_id expire_time s =
     s\<lparr>expire := expire_table_update (term_id, doc_id) expire_time (expire s)\<rparr>"

definition get_expire_table_size :: "('term, 'doc, 'w, 'e) event_index \<Rightarrow> nat" where
  "get_expire_table_size s = expire_table_size (expire s)"

text \<open>\<^verbatim>\<open>BaseEventIndex::update\<close>: refresh the deadline, then stage the upsert.\<close>

definition update ::
  "'doc \<Rightarrow> 'term \<Rightarrow> 'w \<Rightarrow> 'e \<Rightarrow> ('term, 'doc, 'w, 'e) event_index \<Rightarrow>
     int \<times> ('term, 'doc, 'w, 'e) event_index" where
  "update doc_id term_id weights expire_time s =
     (let s1 = update_expire_internal doc_id term_id expire_time s;
          (r, cs) = create_update_internal doc_id term_id weights (changeset s1)
      in (r, s1\<lparr>changeset := cs\<rparr>))"

text \<open>
  \<^verbatim>\<open>BaseEventIndex::batch_update\<close>: the \<^verbatim>\<open>for\<close> loop over the batch, with the running
  sum \<^verbatim>\<open>ret\<close> as an argument.
\<close>

fun batch_update_loop ::
  "('term, 'doc, 'w, 'e) event_tuple list \<Rightarrow> int \<Rightarrow> ('term, 'doc, 'w, 'e) event_index \<Rightarrow>
     int \<times> ('term, 'doc, 'w, 'e) event_index" where
  "batch_update_loop [] ret s = (ret, s)"
| "batch_update_loop (tuple # batch) ret s =
     (let s1 = update_expire_internal (fst tuple) (fst (snd tuple)) (snd (snd (snd tuple))) s;
          (r, cs) = create_update_internal (fst tuple) (fst (snd tuple)) (fst (snd (snd tuple)))
                      (changeset s1)
      in batch_update_loop batch (ret + r) (s1\<lparr>changeset := cs\<rparr>))"

definition batch_update ::
  "('term, 'doc, 'w, 'e) event_tuple list \<Rightarrow> ('term, 'doc, 'w, 'e) event_index \<Rightarrow>
     int \<times> ('term, 'doc, 'w, 'e) event_index" where
  "batch_update batch s = batch_update_loop batch 0 s"

text \<open>
  \<^verbatim>\<open>BaseEventIndex::apply\<close> (named \<open>apply_index\<close>, \<open>apply\<close> being a keyword): pop from the
  expiration table with \<^verbatim>\<open>max_size_\<close> as the limit, stage a removal per popped item in the
  order of the result, then hand the changeset to \<^verbatim>\<open>apply_internal\<close>.
\<close>

fun remove_loop ::
  "(('term \<times> 'doc) \<times> 'e) list \<Rightarrow> ('term, 'doc, 'w) edit list \<Rightarrow> ('term, 'doc, 'w) edit list" where
  "remove_loop [] cs = cs"
| "remove_loop (expire_item # results) cs =
     remove_loop results (snd (remove_internal (snd (fst expire_item)) (fst (fst expire_item)) cs))"

definition apply_index ::
  "'e::linorder \<Rightarrow> ('term, 'doc::linorder, 'w, 'e) event_index \<Rightarrow>
     (int \<times> int) \<times> ('term, 'doc, 'w, 'e) event_index" where
  "apply_index expire_time s =
     (let (results, tab) = expire_with_limit expire_time (max_size s) (expire s);
          ret_expire = int (length results);
          cs1 = remove_loop results (changeset s);
          (ret, P, cs2) = apply_internal cs1 (index s)
      in ((ret, ret_expire), s\<lparr>index := P, expire := tab, changeset := cs2\<rparr>))"

text \<open>
  Modelled from the spec: the constructor without a loader (declared in the missing
  header \<^verbatim>\<open>base_event_index.h\<close>). \<^verbatim>\<open>max_size_\<close> is stored; the posting index, the
  expiration table and the changeset start empty; \<^verbatim>\<open>initial_buckets\<close> only presizes.
\<close>

definition empty_event_index :: "nat \<Rightarrow> nat \<Rightarrow> ('term, 'doc, 'w, 'e) event_index" where
  "empty_event_index initial_buckets max_sz =
     \<lparr>index = Map.empty, max_size = max_sz, expire = [], changeset = []\<rparr>"

text \<open>
  \<^verbatim>\<open>BaseEventIndex::dump\<close> is a template over the dumper. \<^verbatim>\<open>dump_internal\<close> of the base
  class and \<^verbatim>\<open>dump\<close> of the expiration table are missing from the sources and are
  parameters here: each takes the dumper and what it writes, and returns the size written
  and the dumper after the write. The \<^verbatim>\<open>size_t\<close> sum is a natural number.
\<close>

definition dump ::
  "('dumper \<Rightarrow> ('term, 'doc, 'w) posting_index \<Rightarrow> nat \<times> 'dumper) \<Rightarrow>
   ('dumper \<Rightarrow> ('term, 'doc, 'e) expire_table \<Rightarrow> nat \<times> 'dumper) \<Rightarrow>
   'dumper \<Rightarrow> ('term, 'doc, 'w, 'e) event_index \<Rightarrow> nat \<times> 'dumper" where
  "dump dump_internal expire_dump dumper s =
     (let ret = 0;
          (n1, dumper1) = dump_internal dumper (index s);
          ret = ret + n1;
          (n2, dumper2) = expire_dump dumper1 (expire s);
          ret = ret + n2
      in (ret, dumper2))"

subsection \<open>The changeset mutex\<close>

text \<open>
  What each public method of \<^verbatim>\<open>BaseEventIndex\<close> does with \<^verbatim>\<open>changeset_mutex_\<close>,
  statement by statement: the construction of the \<^verbatim>\<open>std::unique_lock\<close> acquires the
  mutex, the end of the method body releases it, and every call on a member is an event
  in between. \<^verbatim>\<open>dump\<close> constructs no lock.
\<close>

datatype member_call =
  expire_size | update_expire_internal_call | create_update_internal_call
| expire_with_limit_call | remove_internal_call | apply_internal_call
| dump_internal_call | expire_dump_call

datatype event = Lock_changeset_mutex | Unlock_changeset_mutex | Call member_call

definition get_expire_table_size_events :: "event list" where
  "get_expire_table_size_events = [Lock_changeset_mutex, Call expire_size, Unlock_changeset_mutex]"

definition update_events :: "event list" where
  "update_events =
     [Lock_changeset_mutex, Call update_expire_internal_call, Call create_update_internal_call,
      Unlock_changeset_mutex]"

definition batch_update_events :: "'a list \<Rightarrow> event list" where
  "batch_update_events batch =
     Lock_changeset_mutex #
     concat (map (\<lambda>tuple. [Call update_expire_internal_call, Call create_update_internal_call]) batch)
     @ [Unlock_changeset_mutex]"

definition apply_events :: "'a list \<Rightarrow> event list" where
  "apply_events results =
     [Lock_changeset_mutex, Call expire_with_limit_call]
     @ map (\<lambda>expire_item. Call remove_internal_call) results
     @ [Call apply_internal_call, Unlock_changeset_mutex]"

definition dump_events :: "event list" where
  "dump_events = [Call dump_internal_call, Call expire_dump_call]"

text \<open>Every member call of a method happens while the mutex is held.\<close>

fun under_lock :: "bool \<Rightarrow> event list \<Rightarrow> bool" where
  "under_lock held [] = True"
| "under_lock held (Lock_changeset_mutex # es) = under_lock True es"
| "under_lock held (Unlock_changeset_mutex # es) = under_lock False es"
| "under_lock held (Call c # es) = (held \<and> under_lock held es)"

subsection \<open>Index start-up in the server's main function\<close>

text \<open>
  The block of \<^verbatim>\<open>server_main\<close> that creates the index (\<^verbatim>\<open>main.cc\<close>, lines 179 to 195).
  An exception is a value: the \<^verbatim>\<open>catch\<close> clause of the block names
  \<^verbatim>\<open>std::ios_base::failure\<close> only, so any other exception leaves \<^verbatim>\<open>server_main\<close>
  (\<open>Inl\<close>), where the \<^verbatim>\<open>catch (...)\<close> of \<^verbatim>\<open>main\<close> turns it into the exit status
  \<open>-1\<close>. \<open>Inr\<close> is the index with which \<^verbatim>\<open>server_main\<close> goes on to
  \<^verbatim>\<open>start_maintain\<close>. The \<^verbatim>\<open>std::unique_ptr\<close> that is null until an index exists is
  an \<open>option\<close>.

  The constructor of \<^verbatim>\<open>DocumentIndexManager\<close> that reads a snapshot is missing from the
  sources and depends on the files it finds: it is the parameter \<open>restore\<close>, which
  returns the restored index or the exception thrown.
\<close>

datatype cpp_exception = ios_base_failure string | other_exception string

text \<open>
  Modelled from the spec: the constructor of \<^verbatim>\<open>DocumentIndexManager\<close> without a snapshot
  (\<^verbatim>\<open>index/document_index_manager.h\<close> is missing). The manager owns the event index; a
  new one is empty.
\<close>

definition DocumentIndexManager_empty :: "nat \<Rightarrow> nat \<Rightarrow> ('term, 'doc, 'w, 'e) event_index" where
  "DocumentIndexManager_empty initial_buckets max_sz = empty_event_index initial_buckets max_sz"

text \<open>The \<^verbatim>\<open>if (restore_on_startup)\<close> statement with its \<^verbatim>\<open>try\<close> block.\<close>

definition restore_index ::
  "(nat \<Rightarrow> nat \<Rightarrow> string \<Rightarrow> cpp_exception + 'idx) \<Rightarrow> bool \<Rightarrow> nat \<Rightarrow> nat \<Rightarrow> string \<Rightarrow>
     cpp_exception + 'idx option" where
  "restore_index restore restore_on_startup index_initial_buckets index_max_size snapshot_prefix =
     (if restore_on_startup
      then (case restore index_initial_buckets index_max_size snapshot_prefix of
              Inr restored \<Rightarrow> Inr (Some restored)
            | Inl (ios_base_failure e) \<Rightarrow> Inr None
            | Inl (other_exception e) \<Rightarrow> Inl (other_exception e))
      else Inr None)"

text \<open>Followed by the \<^verbatim>\<open>if (!index)\<close> statement.\<close>

definition server_main_index ::
  "(nat \<Rightarrow> nat \<Rightarrow> string \<Rightarrow> cpp_exception + ('term, 'doc, 'w, 'e) event_index) \<Rightarrow>
     bool \<Rightarrow> nat \<Rightarrow> nat \<Rightarrow> string \<Rightarrow> cpp_exception + ('term, 'doc, 'w, 'e) event_index" where
  "server_main_index restore restore_on_startup index_initial_buckets index_max_size snapshot_prefix =
     (case restore_index restore restore_on_startup index_initial_buckets index_max_size
             snapshot_prefix of
        Inl ex \<Rightarrow> Inl ex
      | Inr None \<Rightarrow> Inr (DocumentIndexManager_empty index_initial_buckets index_max_size)
      | Inr (Some restored) \<Rightarrow> Inr restored)"

subsection \<open>Feature cache\<close>

text \<open>
  A \<^verbatim>\<open>std::shared_ptr<Feature>\<close> is null or the address of a \<^verbatim>\<open>Feature\<close> object; the
  objects that \<^verbatim>\<open>std::make_shared\<close> has created are the list \<open>heap\<close>, and the address of
  an object is its position there, so that two pointers are equal exactly when they point
  to the same object.

  The class \<^verbatim>\<open>FeatureSpace\<close> is missing from the sources. The cache calls one member of
  it, \<^verbatim>\<open>calculate_feature_id\<close>, and a feature space is represented by that function; the
  class constant \<^verbatim>\<open>FeatureSpace::kInvalidId\<close> is a parameter of the two functions below.
  A space handle is a space: the null handle, which the source would dereference, is
  outside the model.
\<close>

datatype feature_ptr = nullptr | Ptr nat

record 'id feature =
  feature_key :: string
  feature_id :: 'id

type_synonym 'id feature_space = "string \<Rightarrow> 'id"

text \<open>The members \<^verbatim>\<open>spaces_\<close> and \<^verbatim>\<open>features_\<close> of \<^verbatim>\<open>FeatureCache\<close>, and the objects.\<close>

record 'id feature_cache =
  spaces :: "string \<rightharpoonup> 'id feature_space"
  features :: "'id \<rightharpoonup> feature_ptr"
  heap :: "'id feature list"

text \<open>The overload that takes the space handle.\<close>

definition create_or_get_feature ::
  "'id \<Rightarrow> string \<Rightarrow> 'id feature_space \<Rightarrow> 'id feature_cache \<Rightarrow> feature_ptr \<times> 'id feature_cache" where
  "create_or_get_feature kInvalidId key space c =
     (let id = space key in
      if id = kInvalidId then (nullptr, c)
      else (case features c id of
              Some found \<Rightarrow> (found, c)
            | None \<Rightarrow>
                (let feature = Ptr (length (heap c))
                 in (feature,
                     c\<lparr>features := (features c)(id \<mapsto> feature),
                       heap := heap c @ [\<lparr>feature_key = key, feature_id = id\<rparr>]\<rparr>))))"

text \<open>The overload that takes the space name.\<close>

definition create_or_get_feature_by_name ::
  "'id \<Rightarrow> string \<Rightarrow> string \<Rightarrow> 'id feature_cache \<Rightarrow> feature_ptr \<times> 'id feature_cache" where
  "create_or_get_feature_by_name kInvalidId key space_name c =
     (case spaces c space_name of
        None \<Rightarrow> (nullptr, c)
      | Some space \<Rightarrow> create_or_get_feature kInvalidId key space c)"

text \<open>
  The only assignment to \<^verbatim>\<open>features_\<close> in the source stores the result of
  \<^verbatim>\<open>std::make_shared\<close>: no entry of the map is a null pointer. The invariant holds for a
  new cache and both overloads keep it.
\<close>

definition features_nonnull :: "'id feature_cache \<Rightarrow> bool" where
  "features_nonnull c = (nullptr \<notin> ran (features c))"

subsection \<open>Reference definitions for the comparison with the spec\<close>

text \<open>
  \<open>update_each\<close> follows the words of the spec for \<^verbatim>\<open>batch_update\<close>: one call of
  \<open>update\<close> per tuple, in batch order, the returned counts added up.
\<close>

fun update_each ::
  "('term, 'doc, 'w, 'e) event_tuple list \<Rightarrow> ('term, 'doc, 'w, 'e) event_index \<Rightarrow>
     int \<times> ('term, 'doc, 'w, 'e) event_index" where
  "update_each [] s = (0, s)"
| "update_each ((doc_id, term_id, weights, expire_time) # batch) s =
     (case update doc_id term_id weights expire_time s of
        (r, s1) \<Rightarrow> (case update_each batch s1 of (rs, s2) \<Rightarrow> (r + rs, s2)))"

text \<open>A writer call that is not \<^verbatim>\<open>apply\<close>, and a run of such calls.\<close>

datatype ('term, 'doc, 'w, 'e) writer_call =
  Update 'doc 'term 'w 'e
| BatchUpdate "('term, 'doc, 'w, 'e) event_tuple list"

fun run_call ::
  "('term, 'doc, 'w, 'e) writer_call \<Rightarrow> ('term, 'doc, 'w, 'e) event_index \<Rightarrow>
     ('term, 'doc, 'w, 'e) event_index" where
  "run_call (Update doc_id term_id weights expire_time) s =
     snd (update doc_id term_id weights expire_time s)"
| "run_call (BatchUpdate batch) s = snd (batch_update batch s)"

definition run_calls ::
  "('term, 'doc, 'w, 'e) writer_call list \<Rightarrow> ('term, 'doc, 'w, 'e) event_index \<Rightarrow>
     ('term, 'doc, 'w, 'e) event_index" where
  "run_calls calls s = fold run_call calls s"

text \<open>
  The number of entries the spec lets \<open>expire_with_limit\<close> pop: the due entries, at most
  \<open>limit\<close> of them, or as many of the oldest entries as bring the table down to \<open>limit\<close>
  pairs when that is more.
\<close>

definition pop_count :: "'e::linorder \<Rightarrow> nat \<Rightarrow> ('k \<times> 'e) list \<Rightarrow> nat" where
  "pop_count now limit tab =
     max (min (length (filter (\<lambda>e. snd e \<le> now) tab)) limit) (length tab - limit)"


subsection \<open>Concrete states\<close>

text \<open>
  An index with \<^verbatim>\<open>max_size\<close> 10 in which the posting of term 1 and document 1 was
  upserted with weight 3 and deadline 5 and published by an \<open>apply\<close> at time 0.
\<close>

definition published_state :: "(nat, nat, nat, int) event_index" where
  "published_state = snd (apply_index 0 (snd (update 1 1 3 5 (empty_event_index 16 10))))"

text \<open>
  The same pair upserted again with weight 7, the upsert still staged: once with the
  deadline 5 it had, once with the later deadline 50.
\<close>

definition reexpire_state :: "(nat, nat, nat, int) event_index" where
  "reexpire_state = snd (update 1 1 7 5 published_state)"


text \<open>A cache with one registered space, \<open>A\<close>, whose invalid id is 0.\<close>

definition space_A :: "nat feature_space" where
  "space_A key = (if key = ''yyy'' then 0 else 111)"

definition cache_A :: "nat feature_cache" where
  "cache_A = \<lparr>spaces = [''A'' \<mapsto> space_A], features = Map.empty, heap = []\<rparr>"

section \<open>Properties of the event index\<close>

subsection \<open>Batch update\<close>

lemma batch_update_loop_acc:
  "batch_update_loop batch ret s =
     (ret + fst (update_each batch s), snd (update_each batch s))"
proof (induction batch arbitrary: ret s)
  case Nil
  show ?case by simp
next
  case (Cons tuple batch)
  obtain doc_id term_id weights expire_time
    where tuple: "tuple = (doc_id, term_id, weights, expire_time)"
    by (cases tuple) auto
  show ?case
    by (simp add: tuple Cons.IH update_def Let_def split: prod.splits)
qed

lemma published_state_eq:
  "published_state =
     \<lparr>index = [1 \<mapsto> [(1, 3)]], max_size = 10, expire = [((1, 1), 5)], changeset = []\<rparr>"
  by (simp add: published_state_def update_def update_expire_internal_def
      create_update_internal_def apply_index_def expire_with_limit_def apply_internal_def
      empty_event_index_def upsert_def lookup_def)

lemma reexpire_state_eq:
  "reexpire_state =
     \<lparr>index = [1 \<mapsto> [(1, 3)]], max_size = 10, expire = [((1, 1), 5)],
      changeset = [UPSERT 1 1 7]\<rparr>"
  by (simp add: reexpire_state_def published_state_eq update_def update_expire_internal_def
      create_update_internal_def)


text \<open>
  C4: for every batch, \<open>batch_update\<close> returns the same count and the same index state
  (changeset and expiration table included) as one \<open>update\<close> per tuple in batch order
  with the counts summed. The proof does not look into the helpers the two methods call.
\<close>

theorem batch_update_refines_update_each:
  "batch_update batch s = update_each batch s"
  by (simp add: batch_update_def batch_update_loop_acc)

theorem batch_update_refines_update_each_witness:
  "fst (batch_update [(3, 1, 5, 30), (1, 2, 6, 40)] reexpire_state) = 2
   \<and> changeset (snd (batch_update [(3, 1, 5, 30), (1, 2, 6, 40)] reexpire_state))
       = [UPSERT 1 1 7, UPSERT 1 3 5, UPSERT 2 1 6]
   \<and> expire (snd (batch_update [(3, 1, 5, 30), (1, 2, 6, 40)] reexpire_state))
       = [((1, 1), 5), ((1, 3), 30), ((2, 1), 40)]"
  using batch_update_refines_update_each [of "[(3, 1, 5, 30), (1, 2, 6, 40)]" reexpire_state]
  by (simp add: reexpire_state_eq update_def update_expire_internal_def
      create_update_internal_def)

subsection \<open>Writes stay invisible\<close>

lemma update_writes:
  "snd (update doc_id term_id weights expire_time s) =
     s\<lparr>expire := expire (snd (update doc_id term_id weights expire_time s)),
        changeset := changeset (snd (update doc_id term_id weights expire_time s))\<rparr>"
  by (simp add: update_def update_expire_internal_def case_prod_beta)

lemma update_each_writes:
  "snd (update_each batch s) =
     s\<lparr>expire := expire (snd (update_each batch s)),
        changeset := changeset (snd (update_each batch s))\<rparr>"
proof (induction batch arbitrary: s)
  case Nil
  show ?case by simp
next
  case (Cons tuple batch)
  obtain doc_id term_id weights expire_time
    where tuple: "tuple = (doc_id, term_id, weights, expire_time)"
    by (cases tuple) auto
  let ?s1 = "snd (update doc_id term_id weights expire_time s)"
  have step: "snd (update_each (tuple # batch) s) = snd (update_each batch ?s1)"
    by (simp add: tuple split: prod.splits)
  have "snd (update_each batch ?s1) =
      ?s1\<lparr>expire := expire (snd (update_each batch ?s1)),
          changeset := changeset (snd (update_each batch ?s1))\<rparr>"
    by (rule Cons.IH)
  also have "\<dots> = s\<lparr>expire := expire (snd (update_each batch ?s1)),
          changeset := changeset (snd (update_each batch ?s1))\<rparr>"
    by (subst update_writes) simp
  finally show ?case
    by (simp only: step)
qed

lemma run_call_writes:
  "run_call call s =
     s\<lparr>expire := expire (run_call call s), changeset := changeset (run_call call s)\<rparr>"
proof (cases call)
  case (Update doc_id term_id weights expire_time)
  then show ?thesis
    using update_writes [of doc_id term_id weights expire_time s] by simp
next
  case (BatchUpdate batch)
  then show ?thesis
    using update_each_writes [of batch s]
    by (simp add: batch_update_def batch_update_loop_acc)
qed

lemma fold_run_call_writes:
  "fold run_call calls s =
     s\<lparr>expire := expire (fold run_call calls s), changeset := changeset (fold run_call calls s)\<rparr>"
proof (induction calls arbitrary: s)
  case Nil
  show ?case by simp
next
  case (Cons call calls)
  have "fold run_call calls (run_call call s) =
      (run_call call s)\<lparr>expire := expire (fold run_call calls (run_call call s)),
          changeset := changeset (fold run_call calls (run_call call s))\<rparr>"
    by (rule Cons.IH)
  also have "\<dots> = s\<lparr>expire := expire (fold run_call calls (run_call call s)),
          changeset := changeset (fold run_call calls (run_call call s))\<rparr>"
    by (subst run_call_writes) simp
  finally show ?case by simp
qed

text \<open>
  C2: a run of \<open>update\<close> and \<open>batch_update\<close> calls without an \<open>apply\<close> writes the
  changeset and the expiration table only: the posting index that readers see, every
  lookup and the weight of every (term, document) pair are what they were before.
\<close>

theorem writes_invisible_until_apply:
  "run_calls calls s =
      s\<lparr>expire := expire (run_calls calls s), changeset := changeset (run_calls calls s)\<rparr>
   \<and> index (run_calls calls s) = index s
   \<and> lookup (index (run_calls calls s)) t = lookup (index s) t
   \<and> weight_of (index (run_calls calls s)) t d = weight_of (index s) t d"
proof -
  have eq: "run_calls calls s =
      s\<lparr>expire := expire (run_calls calls s), changeset := changeset (run_calls calls s)\<rparr>"
    unfolding run_calls_def by (rule fold_run_call_writes)
  have "index (run_calls calls s) = index s"
    by (subst eq) simp
  with eq show ?thesis by (simp add: weight_of_def)
qed

theorem writes_invisible_until_apply_witness:
  "lookup (index (run_calls [Update 2 1 4 20, BatchUpdate [(3, 1, 5, 30), (1, 2, 6, 40)]]
       reexpire_state)) 1 = [(1, 3)]
   \<and> weight_of (index (run_calls [Update 2 1 4 20, BatchUpdate [(3, 1, 5, 30), (1, 2, 6, 40)]]
       reexpire_state)) 1 2 = None
   \<and> changeset (run_calls [Update 2 1 4 20, BatchUpdate [(3, 1, 5, 30), (1, 2, 6, 40)]]
       reexpire_state) = [UPSERT 1 1 7, UPSERT 1 2 4, UPSERT 1 3 5, UPSERT 2 1 6]"
  using writes_invisible_until_apply
    [of "[Update 2 1 4 20, BatchUpdate [(3, 1, 5, 30), (1, 2, 6, 40)]]" reexpire_state 1 2]
  by (simp add: reexpire_state_eq run_calls_def batch_update_def update_def
      update_expire_internal_def create_update_internal_def lookup_def weight_of_def)

subsection \<open>Apply\<close>

lemma remove_loop_append:
  "remove_loop results cs = cs @ map (\<lambda>item. DELETE (fst (fst item)) (snd (fst item))) results"
  by (induction results arbitrary: cs) (simp_all add: remove_internal_def)


text \<open>
  C1: \<open>apply\<close> pops from the expiration table with \<open>max_size\<close> as the limit, stages one
  DELETE per popped key behind the edits already in the changeset, publishes the whole
  log in order into the posting index, leaves the changeset empty and the expiration
  table without the popped keys; the second component of the result is the number of
  popped keys and the first is what \<open>apply_internal\<close> returns for the published log.
\<close>

theorem apply_steps:
  "snd (fst (apply_index now s)) = int (length (fst (expire_with_limit now (max_size s) (expire s))))
   \<and> fst (fst (apply_index now s)) =
       fst (apply_internal (changeset s @ map (\<lambda>item. DELETE (fst (fst item)) (snd (fst item)))
              (fst (expire_with_limit now (max_size s) (expire s)))) (index s))
   \<and> index (snd (apply_index now s)) =
       fold apply_edit
         (changeset s @ map (\<lambda>item. DELETE (fst (fst item)) (snd (fst item)))
              (fst (expire_with_limit now (max_size s) (expire s))))
         (index s)
   \<and> changeset (snd (apply_index now s)) = []
   \<and> expire (snd (apply_index now s)) = snd (expire_with_limit now (max_size s) (expire s))
   \<and> max_size (snd (apply_index now s)) = max_size s"
  by (simp add: apply_index_def apply_internal_def remove_loop_append Let_def split: prod.splits)

theorem apply_steps_witness:
  "fst (apply_index 10 reexpire_state) = (2, 1)
   \<and> lookup (index (snd (apply_index 10 reexpire_state))) 1 = []
   \<and> changeset (snd (apply_index 10 reexpire_state)) = []
   \<and> expire (snd (apply_index 10 reexpire_state)) = []"
proof -
  have popped: "expire_with_limit 10 (max_size reexpire_state) (expire reexpire_state)
      = ([((1, 1), 5)], [])"
    by (simp add: reexpire_state_eq expire_with_limit_def)
  have r: "fst (apply_index 10 reexpire_state)
      = (fst (fst (apply_index 10 reexpire_state)), snd (fst (apply_index 10 reexpire_state)))"
    by simp
  show ?thesis
    using apply_steps [of 10 reexpire_state]
    by (subst r)
      (simp add: popped, simp add: reexpire_state_eq apply_internal_def upsert_def remove_def
        remove_posting_def lookup_def)
qed

section \<open>Properties of the expiration table\<close>

subsection \<open>Refreshing a deadline\<close>

lemma map_of_expire_table_update:
  "map_of (expire_table_update key t tab) = (map_of tab)(key \<mapsto> t)"
  by (induction tab) (auto simp: fun_eq_iff)

lemma keys_expire_table_update:
  "map fst (expire_table_update key t tab) =
     (if key \<in> fst ` set tab then map fst tab else map fst tab @ [key])"
  by (induction tab) force+

lemma expire_table_update_twice:
  "expire_table_update key t (expire_table_update key t' tab) = expire_table_update key t tab"
  by (induction tab) auto

lemma entries_of_key:
  "distinct (map fst tab) \<Longrightarrow> key \<in> fst ` set tab \<Longrightarrow>
     length (filter (\<lambda>e. fst e = key) tab) = 1"
proof (induction tab)
  case Nil
  then show ?case by simp
next
  case (Cons e tab)
  show ?case
  proof (cases "fst e = key")
    case True
    with Cons.prems have "key \<notin> fst ` set tab" by auto
    then have "filter (\<lambda>e. fst e = key) tab = []"
      by (auto simp: filter_empty_conv)
    with True show ?thesis by simp
  next
    case False
    with Cons show ?thesis by auto
  qed
qed

text \<open>
  C8: refreshing the deadline of a tracked (term, document) key through the event index
  is a replacement. The key then has the new deadline and every other key the deadline it
  had; the table still has one entry per key, exactly one for the refreshed key, and the
  size it had; the same call once more changes nothing; the posting index and the
  changeset are not touched.
\<close>

theorem expire_refresh_replaces:
  assumes "distinct (map fst (expire s))"
    and "(term_id, doc_id) \<in> fst ` set (expire s)"
  shows "let s' = update_expire_internal doc_id term_id t s in
     map_of (expire s') (term_id, doc_id) = Some t
     \<and> (\<forall>key. key \<noteq> (term_id, doc_id) \<longrightarrow> map_of (expire s') key = map_of (expire s) key)
     \<and> distinct (map fst (expire s'))
     \<and> length (filter (\<lambda>e. fst e = (term_id, doc_id)) (expire s')) = 1
     \<and> get_expire_table_size s' = get_expire_table_size s
     \<and> update_expire_internal doc_id term_id t s' = s'
     \<and> index s' = index s \<and> changeset s' = changeset s"
proof -
  let ?tab = "expire_table_update (term_id, doc_id) t (expire s)"
  have keys: "map fst ?tab = map fst (expire s)"
    using assms(2) by (simp add: keys_expire_table_update)
  have d: "distinct (map fst ?tab)"
    using assms(1) keys by simp
  have tracked: "(term_id, doc_id) \<in> fst ` set ?tab"
    using assms(2) keys by (metis list.set_map)
  have one: "length (filter (\<lambda>e. fst e = (term_id, doc_id)) ?tab) = 1"
    using d tracked by (rule entries_of_key)
  have len: "length ?tab = length (expire s)"
    using keys by (metis length_map)
  show ?thesis
    using d one len
    by (simp add: update_expire_internal_def Let_def map_of_expire_table_update
          expire_table_update_twice get_expire_table_size_def expire_table_size_def)
qed

theorem expire_refresh_replaces_witness:
  "distinct (map fst [((1::nat, 1::nat), 5::int), ((1, 2), 7)])
   \<and> (1, 1) \<in> fst ` set [((1::nat, 1::nat), 5::int), ((1, 2), 7)]
   \<and> expire (update_expire_internal 1 1 9
        \<lparr>index = (Map.empty :: nat \<rightharpoonup> (nat \<times> nat) list), max_size = 10,
          expire = [((1::nat, 1::nat), 5::int), ((1, 2), 7)], changeset = []\<rparr>)
       = [((1, 1), 9), ((1, 2), 7)]
   \<and> get_expire_table_size (update_expire_internal 1 1 9
        \<lparr>index = (Map.empty :: nat \<rightharpoonup> (nat \<times> nat) list), max_size = 10,
          expire = [((1::nat, 1::nat), 5::int), ((1, 2), 7)], changeset = []\<rparr>) = 2"
  using expire_refresh_replaces [of
      "\<lparr>index = (Map.empty :: nat \<rightharpoonup> (nat \<times> nat) list), max_size = 10,
        expire = [((1::nat, 1::nat), 5::int), ((1, 2), 7)], changeset = []\<rparr>" 1 1 9]
  by (simp add: update_expire_internal_def get_expire_table_size_def expire_table_size_def)

subsection \<open>Expiry with a limit\<close>

lemma pop_loop_split: "fst (pop_loop now limit n xs) @ snd (pop_loop now limit n xs) = xs"
  by (induction xs arbitrary: n) (simp_all add: case_prod_beta)

lemma pop_loop_rest_le: "length (snd (pop_loop now limit n xs)) \<le> limit"
  by (induction xs arbitrary: n) (simp_all add: case_prod_beta)

lemma pop_loop_under_capacity:
  "n + length xs \<le> limit \<Longrightarrow>
     pop_loop now limit n xs =
       (takeWhile (\<lambda>p. snd p \<le> now) xs, dropWhile (\<lambda>p. snd p \<le> now) xs)"
  by (induction xs arbitrary: n) auto

lemma sorted_takeWhile_due:
  "sorted (map snd xs) \<Longrightarrow> takeWhile (\<lambda>p. snd p \<le> now) xs = filter (\<lambda>p. snd p \<le> now) xs"
proof (induction xs)
  case Nil
  show ?case by simp
next
  case (Cons x xs)
  show ?case
  proof (cases "snd x \<le> now")
    case True
    with Cons show ?thesis by simp
  next
    case False
    with Cons.prems have "\<forall>y\<in>set xs. \<not> snd y \<le> now" by fastforce
    then have "filter (\<lambda>p. snd p \<le> now) xs = []"
      by (simp add: filter_empty_conv)
    with False show ?thesis by simp
  qed
qed

lemma sorted_dropWhile_due:
  "sorted (map snd xs) \<Longrightarrow> dropWhile (\<lambda>p. snd p \<le> now) xs = filter (\<lambda>p. now < snd p) xs"
proof (induction xs)
  case Nil
  show ?case by simp
next
  case (Cons x xs)
  show ?case
  proof (cases "snd x \<le> now")
    case True
    with Cons show ?thesis by auto
  next
    case False
    with Cons.prems have "\<forall>y\<in>set xs. now < snd y" by fastforce
    then have "filter (\<lambda>p. now < snd p) xs = xs"
      by (simp add: filter_id_conv)
    with False show ?thesis by auto
  qed
qed

lemma pop_loop_cap:
  "sorted (map snd xs) \<Longrightarrow> r \<in> set (snd (pop_loop now limit n xs)) \<Longrightarrow> snd r \<le> now \<Longrightarrow>
     limit \<le> n + length (fst (pop_loop now limit n xs))"
proof (induction xs arbitrary: n)
  case Nil
  then show ?case by simp
next
  case (Cons x xs)
  show ?case
  proof (cases "(snd x \<le> now \<and> n < limit) \<or> limit < length (x # xs)")
    case True
    then have unf: "pop_loop now limit n (x # xs) =
        (x # fst (pop_loop now limit (Suc n) xs), snd (pop_loop now limit (Suc n) xs))"
      by (auto split: prod.splits)
    from Cons.prems have "sorted (map snd xs)" by simp
    moreover from Cons.prems(2) unf have "r \<in> set (snd (pop_loop now limit (Suc n) xs))"
      by simp
    ultimately have "limit \<le> Suc n + length (fst (pop_loop now limit (Suc n) xs))"
      using Cons.prems(3) by (rule Cons.IH)
    with unf show ?thesis by simp
  next
    case False
    then have unf: "pop_loop now limit n (x # xs) = ([], x # xs)"
      by auto
    with Cons.prems(2) have "r \<in> set (x # xs)" by simp
    with Cons.prems(1) have "snd x \<le> snd r" by auto
    with Cons.prems(3) have "snd x \<le> now" by simp
    with False have "\<not> n < limit" by simp
    with unf show ?thesis by simp
  qed
qed

lemma pop_count_step_due:
  "k < limit \<Longrightarrow>
     max (min (Suc a) (limit - k)) (Suc L - limit) =
       Suc (max (min a (limit - Suc k)) (L - limit))"
  by arith

lemma pop_loop_exact:
  "sorted (map snd xs) \<Longrightarrow>
     pop_loop now limit k xs =
       (take (max (min (length (takeWhile (\<lambda>p. snd p \<le> now) xs)) (limit - k)) (length xs - limit)) xs,
        drop (max (min (length (takeWhile (\<lambda>p. snd p \<le> now) xs)) (limit - k)) (length xs - limit)) xs)"
proof (induction xs arbitrary: k)
  case Nil
  show ?case by simp
next
  case (Cons x xs)
  from Cons.prems have srt: "sorted (map snd xs)" by simp
  note IH = Cons.IH [OF srt, of "Suc k"]
  define a where "a = length (takeWhile (\<lambda>p. snd p \<le> now) xs)"
  define m where "m = max (min a (limit - Suc k)) (length xs - limit)"
  have rec: "pop_loop now limit (Suc k) xs = (take m xs, drop m xs)"
    using IH by (simp add: a_def m_def)
  show ?case
  proof (cases "snd x \<le> now")
    case due: True
    then have tw: "length (takeWhile (\<lambda>p. snd p \<le> now) (x # xs)) = Suc a"
      by (simp add: a_def)
    show ?thesis
    proof (cases "k < limit")
      case True
      then have "max (min (Suc a) (limit - k)) (Suc (length xs) - limit) = Suc m"
        unfolding m_def by (rule pop_count_step_due)
      then show ?thesis
        using True due by (simp only: tw list.size length_Cons) (simp add: rec)
    next
      case False
      show ?thesis
      proof (cases "limit < Suc (length xs)")
        case True
        with False have "max (min (Suc a) (limit - k)) (Suc (length xs) - limit) = Suc m"
          unfolding m_def by arith
        then show ?thesis
          using True by (simp only: tw list.size length_Cons) (simp add: rec)
      next
        case nl: False
        with False have "max (min (Suc a) (limit - k)) (Suc (length xs) - limit) = 0"
          by arith
        then show ?thesis
          using nl False by (simp only: tw list.size length_Cons) simp
      qed
    qed
  next
    case False
    with Cons.prems have "\<forall>y\<in>set xs. \<not> snd y \<le> now" by fastforce
    then have "takeWhile (\<lambda>p. snd p \<le> now) xs = []"
      by (cases xs) auto
    then have a0: "a = 0" by (simp add: a_def)
    from False have tw: "length (takeWhile (\<lambda>p. snd p \<le> now) (x # xs)) = 0"
      by simp
    show ?thesis
    proof (cases "limit < Suc (length xs)")
      case True
      then have "max (min 0 (limit - k)) (Suc (length xs) - limit) = Suc m"
        unfolding m_def a0 by arith
      then show ?thesis
        using True by (simp only: tw list.size length_Cons) (simp add: rec)
    next
      case nl: False
      then have "max (min 0 (limit - k)) (Suc (length xs) - limit) = 0"
        by arith
      then show ?thesis
        using nl False by (simp only: tw list.size length_Cons) simp
    qed
  qed
qed

lemma expire_with_limit_exact:
  "expire_with_limit now limit tab =
     (take (pop_count now limit tab) (sort_key snd tab),
      drop (pop_count now limit tab) (sort_key snd tab))"
proof -
  have srt: "sorted (map snd (sort_key snd tab))"
    by (rule sorted_sort_key)
  have "length (takeWhile (\<lambda>p. snd p \<le> now) (sort_key snd tab)) =
      length (filter (\<lambda>p. snd p \<le> now) tab)"
    by (simp add: sorted_takeWhile_due [OF srt] filter_sort)
  then show ?thesis
    by (simp add: expire_with_limit_def pop_loop_exact [OF srt] pop_count_def)
qed


lemma pop_count_le: "pop_count now limit tab \<le> length tab"
proof -
  have "length (filter (\<lambda>e. snd e \<le> now) tab) \<le> length tab"
    by (rule length_filter_le)
  then show ?thesis
    unfolding pop_count_def by arith
qed

text \<open>
  C5: \<open>expire_with_limit\<close> pops the \<open>pop_count\<close> oldest entries and no others: the
  popped entries are the first \<open>pop_count\<close> entries of the table in ascending deadline
  order, returned in that order, and the rest stays. So the due entries are popped, at
  most \<open>limit\<close> of them, and entries beyond them are popped only while the table holds
  more than \<open>limit\<close> pairs. No popped entry has a larger deadline than an entry that
  stays. When the table holds at most \<open>limit\<close> pairs, the popped entries are exactly
  those with a deadline \<open>\<le> now\<close>. A due entry stays only once \<open>limit\<close> entries have been
  popped, an entry that is not due is popped only because the table was over \<open>limit\<close>,
  and in every case at most \<open>limit\<close> pairs remain.
\<close>

theorem expire_with_limit_policy:
  assumes "expire_with_limit now limit tab = (popped, rest)"
  shows "sorted (map snd popped)
     \<and> mset (popped @ rest) = mset tab
     \<and> (\<forall>p\<in>set popped. \<forall>r\<in>set rest. snd p \<le> snd r)
     \<and> (length tab \<le> limit \<longrightarrow>
          set popped = {e \<in> set tab. snd e \<le> now} \<and> set rest = {e \<in> set tab. now < snd e})
     \<and> (\<forall>r\<in>set rest. snd r \<le> now \<longrightarrow> limit \<le> length popped)
     \<and> (\<forall>p\<in>set popped. now < snd p \<longrightarrow> limit < length tab)
     \<and> length rest \<le> limit
     \<and> popped = take (pop_count now limit tab) (sort_key snd tab)
     \<and> rest = drop (pop_count now limit tab) (sort_key snd tab)
     \<and> length popped = pop_count now limit tab
     \<and> length rest = length tab - pop_count now limit tab"
proof -
  let ?xs = "sort_key snd tab"
  have popped: "popped = fst (pop_loop now limit 0 ?xs)"
    and rest: "rest = snd (pop_loop now limit 0 ?xs)"
    using assms by (simp_all add: expire_with_limit_def)
  have split: "popped @ rest = ?xs"
    unfolding popped rest by (rule pop_loop_split)
  have srt: "sorted (map snd ?xs)"
    by (rule sorted_sort_key)
  then have srt2: "sorted (map snd popped @ map snd rest)"
    using split by (metis map_append)
  have 1: "sorted (map snd popped)"
    using srt2 by (simp add: sorted_append)
  have 2: "mset (popped @ rest) = mset tab"
    using split by simp
  have 3: "\<forall>p\<in>set popped. \<forall>r\<in>set rest. snd p \<le> snd r"
    using srt2 by (auto simp: sorted_append)
  have 4: "set popped = {e \<in> set tab. snd e \<le> now} \<and> set rest = {e \<in> set tab. now < snd e}"
    if "length tab \<le> limit"
  proof -
    from that have "0 + length ?xs \<le> limit" by simp
    then have "pop_loop now limit 0 ?xs =
        (takeWhile (\<lambda>p. snd p \<le> now) ?xs, dropWhile (\<lambda>p. snd p \<le> now) ?xs)"
      by (rule pop_loop_under_capacity)
    then show ?thesis
      using srt by (simp add: popped rest sorted_takeWhile_due sorted_dropWhile_due)
  qed
  have 5: "\<forall>r\<in>set rest. snd r \<le> now \<longrightarrow> limit \<le> length popped"
    using pop_loop_cap [OF srt, of _ now limit 0] by (auto simp: popped rest)
  have 6: "\<forall>p\<in>set popped. now < snd p \<longrightarrow> limit < length tab"
  proof (rule ccontr)
    assume neg: "\<not> (\<forall>p\<in>set popped. now < snd p \<longrightarrow> limit < length tab)"
    then have "length tab \<le> limit" by auto
    from 4 [OF this] neg show False by auto
  qed
  have 7: "length rest \<le> limit"
    unfolding rest by (rule pop_loop_rest_le)
  have exact: "(popped, rest) = (take (pop_count now limit tab) ?xs, drop (pop_count now limit tab) ?xs)"
    using assms by (simp add: expire_with_limit_exact)
  then have 8: "popped = take (pop_count now limit tab) ?xs"
    and 9: "rest = drop (pop_count now limit tab) ?xs"
    by simp_all
  have 10: "length popped = pop_count now limit tab"
    using pop_count_le [of now limit tab] by (simp add: 8)
  have 11: "length rest = length tab - pop_count now limit tab"
    by (simp add: 9)
  from 1 2 3 4 5 6 7 8 9 10 11 show ?thesis by blast
qed

theorem expire_with_limit_policy_witness:
  "expire_with_limit (150::int) 3
      [((1::nat, 1::nat), 100), ((1, 2), 500), ((1, 3), 300), ((2, 1), 120), ((2, 2), 200), ((2, 3), 400)]
     = ([((1, 1), 100), ((2, 1), 120), ((2, 2), 200)], [((1, 3), 300), ((2, 3), 400), ((1, 2), 500)])
   \<and> sorted (map snd [((1::nat, 1::nat), 100::int), ((2, 1), 120), ((2, 2), 200)])
   \<and> length [((1::nat, 3::nat), 300::int), ((2, 3), 400), ((1, 2), 500)] \<le> 3
   \<and> (3::nat) < length [((1::nat, 1::nat), 100::int), ((1, 2), 500), ((1, 3), 300), ((2, 1), 120),
        ((2, 2), 200), ((2, 3), 400)]
   \<and> pop_count (150::int) 3
        [((1::nat, 1::nat), 100), ((1, 2), 500), ((1, 3), 300), ((2, 1), 120), ((2, 2), 200), ((2, 3), 400)]
       = 3"
proof -
  have h: "expire_with_limit (150::int) 3
      [((1::nat, 1::nat), 100), ((1, 2), 500), ((1, 3), 300), ((2, 1), 120), ((2, 2), 200), ((2, 3), 400)]
     = ([((1, 1), 100), ((2, 1), 120), ((2, 2), 200)], [((1, 3), 300), ((2, 3), 400), ((1, 2), 500)])"
    by (simp add: expire_with_limit_def)
  have n: "pop_count (150::int) 3
      [((1::nat, 1::nat), 100), ((1, 2), 500), ((1, 3), 300), ((2, 1), 120), ((2, 2), 200), ((2, 3), 400)]
     = 3"
    by (simp add: pop_count_def)
  from expire_with_limit_policy [OF h]
  have s: "sorted (map snd [((1::nat, 1::nat), 100::int), ((2, 1), 120), ((2, 2), 200)])"
    by (rule conjunct1)
  have l1: "length [((1::nat, 3::nat), 300::int), ((2, 3), 400), ((1, 2), 500)] \<le> 3"
    by simp
  have l2: "(3::nat) < length [((1::nat, 1::nat), 100::int), ((1, 2), 500), ((1, 3), 300),
      ((2, 1), 120), ((2, 2), 200), ((2, 3), 400)]"
    by simp
  show ?thesis
    by (intro conjI h s l1 l2 n)
qed

section \<open>Re-insertion and expiry in one apply\<close>















section \<open>Dump and the changeset mutex\<close>

lemma under_lock_batch:
  "under_lock True (concat (map (\<lambda>tuple. [Call update_expire_internal_call,
      Call create_update_internal_call]) batch) @ es) = under_lock True es"
  by (induction batch) simp_all

lemma under_lock_removals:
  "under_lock True (map (\<lambda>expire_item. Call remove_internal_call) results @ es) =
     under_lock True es"
  by (induction results) simp_all

text \<open>
  C7, as the code has it: \<open>dump\<close> calls \<^verbatim>\<open>dump_internal\<close> and then the dump of the
  expiration table, and nothing else: it does not take the changeset mutex, so its two
  calls are not under the lock, while the calls of \<open>get_expire_table_size\<close>, \<open>update\<close>,
  \<open>batch_update\<close> and \<open>apply\<close> all are. The posting store is written before the
  expiration table: the dumper that the table's dump receives is the one that
  \<^verbatim>\<open>dump_internal\<close> has written to, and the result is the sum of the two sizes.
\<close>

theorem dump_takes_no_lock:
  "dump_events = [Call dump_internal_call, Call expire_dump_call]
   \<and> \<not> under_lock False dump_events
   \<and> under_lock False get_expire_table_size_events
   \<and> under_lock False update_events
   \<and> under_lock False (batch_update_events batch)
   \<and> under_lock False (apply_events results)
   \<and> dump dump_internal expire_dump dumper s =
       (fst (dump_internal dumper (index s))
          + fst (expire_dump (snd (dump_internal dumper (index s))) (expire s)),
        snd (expire_dump (snd (dump_internal dumper (index s))) (expire s)))"
  by (simp add: dump_events_def get_expire_table_size_events_def update_events_def
      batch_update_events_def apply_events_def under_lock_batch under_lock_removals
      dump_def Let_def case_prod_beta)

theorem dump_takes_no_lock_witness:
  "\<not> under_lock False dump_events
   \<and> under_lock False (batch_update_events [(3::nat, 1::nat, 5::nat, 30::int), (1, 2, 6, 40)])
   \<and> under_lock False (apply_events [((1::nat, 1::nat), 5::int)])
   \<and> dump (\<lambda>dumper P. (1, dumper @ [''postings'']))
          (\<lambda>dumper tab. (length tab, dumper @ [''expiration''])) [] reexpire_state
       = (2, [''postings'', ''expiration''])"
  using dump_takes_no_lock [of "[(3::nat, 1::nat, 5::nat, 30::int), (1, 2, 6, 40)]"
      "[((1::nat, 1::nat), 5::int)]" "\<lambda>dumper P. (1, dumper @ [''postings''])"
      "\<lambda>dumper tab. (length tab, dumper @ [''expiration''])" "[]" reexpire_state]
  by (simp add: reexpire_state_eq)

section \<open>Index start-up\<close>

text \<open>
  C6, as the code has it: when the restoring constructor fails with
  \<^verbatim>\<open>std::ios_base::failure\<close>, the block ends with the index of the constructor without
  a snapshot, which is the empty index and holds nothing of what the failed restore had
  read, and \<^verbatim>\<open>server_main\<close> goes on with it (the result is \<open>Inr\<close>). When the restore is
  attempted and fails with any other exception, the block does not catch it: there is no
  fall-back and the exception leaves \<^verbatim>\<open>server_main\<close> (the result is \<open>Inl\<close>).
\<close>

theorem restore_failure_handling:
  "(restore index_initial_buckets index_max_size snapshot_prefix = Inl (ios_base_failure e) \<longrightarrow>
      server_main_index restore restore_on_startup index_initial_buckets index_max_size
          snapshot_prefix
        = Inr (DocumentIndexManager_empty index_initial_buckets index_max_size))
   \<and> (restore index_initial_buckets index_max_size snapshot_prefix = Inl (other_exception e) \<longrightarrow>
      server_main_index restore True index_initial_buckets index_max_size snapshot_prefix
        = Inl (other_exception e))
   \<and> DocumentIndexManager_empty index_initial_buckets index_max_size
       = \<lparr>index = Map.empty, max_size = index_max_size, expire = [], changeset = []\<rparr>"
  by (simp add: server_main_index_def restore_index_def DocumentIndexManager_empty_def
      empty_event_index_def)

theorem restore_failure_handling_witness:
  "server_main_index (\<lambda>initial_buckets max_sz prefix. Inl (ios_base_failure ''unreadable''))
       True 100000 5000000 ''snapshot''
     = (Inr \<lparr>index = Map.empty, max_size = 5000000, expire = [], changeset = []\<rparr>
          :: cpp_exception + (nat, nat, nat, int) event_index)"
  using restore_failure_handling
    [of "\<lambda>initial_buckets max_sz prefix.
           (Inl (ios_base_failure ''unreadable'') :: cpp_exception + (nat, nat, nat, int) event_index)"
      100000 5000000 "''snapshot''" "''unreadable''" True]
  by (simp add: DocumentIndexManager_empty_def empty_event_index_def)

text \<open>
  The claim as the spec states it, for every failure of the restore, fails for a restore
  that throws an exception other than \<^verbatim>\<open>std::ios_base::failure\<close>: start-up does not
  fall back to the empty index.
\<close>

theorem restore_other_failure_counterexample:
  "server_main_index (\<lambda>initial_buckets max_sz prefix. Inl (other_exception ''std::length_error''))
       True 100000 5000000 ''snapshot''
     = (Inl (other_exception ''std::length_error'')
          :: cpp_exception + (nat, nat, nat, int) event_index)
   \<and> server_main_index (\<lambda>initial_buckets max_sz prefix. Inl (other_exception ''std::length_error''))
       True 100000 5000000 ''snapshot''
     \<noteq> (Inr (DocumentIndexManager_empty 100000 5000000)
          :: cpp_exception + (nat, nat, nat, int) event_index)"
  by (simp add: server_main_index_def restore_index_def)

section \<open>Properties of the feature cache\<close>

lemma create_or_get_feature_nonnull:
  "features_nonnull c \<Longrightarrow> features_nonnull (snd (create_or_get_feature kInvalidId key space c))"
  by (auto simp: create_or_get_feature_def features_nonnull_def Let_def ran_def
      split: option.splits)

lemma create_or_get_feature_null_iff:
  "features_nonnull c \<Longrightarrow>
     fst (create_or_get_feature kInvalidId key space c) = nullptr \<longleftrightarrow> space key = kInvalidId"
  by (auto simp: create_or_get_feature_def features_nonnull_def Let_def ran_def
      split: option.splits)

lemma create_or_get_feature_null_unchanged:
  "space key = kInvalidId \<Longrightarrow> snd (create_or_get_feature kInvalidId key space c) = c"
  by (simp add: create_or_get_feature_def)

lemma create_or_get_feature_by_name_found:
  "spaces c space_name = Some space \<Longrightarrow>
     create_or_get_feature_by_name kInvalidId key space_name c =
       create_or_get_feature kInvalidId key space c"
  by (simp add: create_or_get_feature_by_name_def)

lemma cache_A_nonnull: "features_nonnull cache_A"
  by (simp add: features_nonnull_def cache_A_def)

text \<open>
  C9: in a cache whose feature map holds no null pointer (true of a new cache and kept
  by both overloads), the overload by name returns the null pointer exactly when the name
  is not registered or the registered space computes the invalid id for the key, and the
  overload by handle exactly when the space computes the invalid id; a call that returns
  the null pointer leaves the cache as it was; every other call returns a pointer that is
  not null.
\<close>

theorem create_or_get_feature_null_exactly:
  assumes "features_nonnull c"
  shows "(fst (create_or_get_feature_by_name kInvalidId key space_name c) = nullptr \<longleftrightarrow>
            (spaces c space_name = None \<or>
             (\<exists>space. spaces c space_name = Some space \<and> space key = kInvalidId)))
     \<and> (fst (create_or_get_feature_by_name kInvalidId key space_name c) = nullptr \<longrightarrow>
            snd (create_or_get_feature_by_name kInvalidId key space_name c) = c)
     \<and> (fst (create_or_get_feature kInvalidId key space c) = nullptr \<longleftrightarrow> space key = kInvalidId)
     \<and> (fst (create_or_get_feature kInvalidId key space c) = nullptr \<longrightarrow>
            snd (create_or_get_feature kInvalidId key space c) = c)
     \<and> features_nonnull (snd (create_or_get_feature_by_name kInvalidId key space_name c))
     \<and> features_nonnull (snd (create_or_get_feature kInvalidId key space c))"
proof -
  note h = create_or_get_feature_null_iff [OF assms]
  have 1: "fst (create_or_get_feature_by_name kInvalidId key space_name c) = nullptr \<longleftrightarrow>
            (spaces c space_name = None \<or>
             (\<exists>space. spaces c space_name = Some space \<and> space key = kInvalidId))"
    by (cases "spaces c space_name") (simp_all add: create_or_get_feature_by_name_def h)
  have 3: "fst (create_or_get_feature kInvalidId key space c) = nullptr \<longleftrightarrow> space key = kInvalidId"
    by (rule h)
  have 4: "fst (create_or_get_feature kInvalidId key space c) = nullptr \<longrightarrow>
            snd (create_or_get_feature kInvalidId key space c) = c"
    using 3 by (simp add: create_or_get_feature_null_unchanged)
  have 2: "fst (create_or_get_feature_by_name kInvalidId key space_name c) = nullptr \<longrightarrow>
            snd (create_or_get_feature_by_name kInvalidId key space_name c) = c"
    by (cases "spaces c space_name")
      (simp_all add: create_or_get_feature_by_name_def h create_or_get_feature_null_unchanged)
  have 6: "features_nonnull (snd (create_or_get_feature kInvalidId key space c))" for space
    using assms by (rule create_or_get_feature_nonnull)
  have 5: "features_nonnull (snd (create_or_get_feature_by_name kInvalidId key space_name c))"
    using assms 6 by (cases "spaces c space_name") (simp_all add: create_or_get_feature_by_name_def)
  from 1 2 3 4 5 6 show ?thesis by blast
qed

theorem create_or_get_feature_null_exactly_witness:
  "features_nonnull cache_A
   \<and> fst (create_or_get_feature_by_name 0 ''111'' ''A'' cache_A) = Ptr 0
   \<and> fst (create_or_get_feature_by_name 0 ''yyy'' ''A'' cache_A) = nullptr
   \<and> snd (create_or_get_feature_by_name 0 ''yyy'' ''A'' cache_A) = cache_A
   \<and> fst (create_or_get_feature_by_name 0 ''111'' ''BB'' cache_A) = nullptr
   \<and> fst (create_or_get_feature 0 ''yyy'' space_A cache_A) = nullptr"
  using create_or_get_feature_null_exactly [OF cache_A_nonnull, of 0 "''yyy''" "''A''" space_A]
    cache_A_nonnull
  by (simp add: create_or_get_feature_by_name_def create_or_get_feature_def cache_A_def
      space_A_def Let_def)

lemma create_or_get_feature_again:
  "create_or_get_feature kInvalidId key space (snd (create_or_get_feature kInvalidId key space c))
     = create_or_get_feature kInvalidId key space c"
  by (auto simp: create_or_get_feature_def Let_def split: option.splits)

lemma create_or_get_feature_spaces:
  "spaces (snd (create_or_get_feature kInvalidId key space c)) = spaces c"
  by (auto simp: create_or_get_feature_def Let_def split: option.splits)

text \<open>
  C10: a second call with the same key and the same space returns what the first call
  returned, pointer and cache: the same \<^verbatim>\<open>Feature\<close> object, and no new entry. This holds
  for the overload by handle, for the overload by name, and for one call by name and the
  other by the handle registered under that name.
\<close>

theorem create_or_get_feature_idempotent:
  "create_or_get_feature kInvalidId key space (snd (create_or_get_feature kInvalidId key space c))
     = create_or_get_feature kInvalidId key space c
   \<and> create_or_get_feature_by_name kInvalidId key space_name
        (snd (create_or_get_feature_by_name kInvalidId key space_name c))
     = create_or_get_feature_by_name kInvalidId key space_name c
   \<and> (spaces c space_name = Some space \<longrightarrow>
        create_or_get_feature_by_name kInvalidId key space_name
          (snd (create_or_get_feature kInvalidId key space c))
        = create_or_get_feature kInvalidId key space c
      \<and> create_or_get_feature kInvalidId key space
          (snd (create_or_get_feature_by_name kInvalidId key space_name c))
        = create_or_get_feature_by_name kInvalidId key space_name c)"
proof -
  have 1: "create_or_get_feature kInvalidId key space
        (snd (create_or_get_feature kInvalidId key space c))
     = create_or_get_feature kInvalidId key space c" for space
    by (rule create_or_get_feature_again)
  have 2: "create_or_get_feature_by_name kInvalidId key space_name
        (snd (create_or_get_feature_by_name kInvalidId key space_name c))
     = create_or_get_feature_by_name kInvalidId key space_name c"
  proof (cases "spaces c space_name")
    case None
    then show ?thesis by (simp add: create_or_get_feature_by_name_def)
  next
    case (Some sp)
    then show ?thesis
      by (simp add: create_or_get_feature_by_name_found create_or_get_feature_spaces 1)
  qed
  have 3: "create_or_get_feature_by_name kInvalidId key space_name
          (snd (create_or_get_feature kInvalidId key space c))
        = create_or_get_feature kInvalidId key space c
      \<and> create_or_get_feature kInvalidId key space
          (snd (create_or_get_feature_by_name kInvalidId key space_name c))
        = create_or_get_feature_by_name kInvalidId key space_name c"
    if "spaces c space_name = Some space"
    using that by (simp add: create_or_get_feature_by_name_found create_or_get_feature_spaces 1)
  from 1 2 3 show ?thesis by blast
qed

theorem create_or_get_feature_idempotent_witness:
  "spaces cache_A ''A'' = Some space_A
   \<and> fst (create_or_get_feature 0 ''222'' space_A cache_A) = Ptr 0
   \<and> fst (create_or_get_feature_by_name 0 ''222'' ''A''
        (snd (create_or_get_feature 0 ''222'' space_A cache_A))) = Ptr 0
   \<and> heap (snd (create_or_get_feature_by_name 0 ''222'' ''A''
        (snd (create_or_get_feature 0 ''222'' space_A cache_A))))
       = [\<lparr>feature_key = ''222'', feature_id = 111\<rparr>]"
proof -
  have registered: "spaces cache_A ''A'' = Some space_A"
    by (simp add: cache_A_def)
  have first: "create_or_get_feature 0 ''222'' space_A cache_A =
      (Ptr 0, cache_A\<lparr>features := [111 \<mapsto> Ptr 0],
         heap := [\<lparr>feature_key = ''222'', feature_id = 111\<rparr>]\<rparr>)"
    by (simp add: create_or_get_feature_def cache_A_def space_A_def Let_def)
  show ?thesis
    using create_or_get_feature_idempotent [of 0 "''222''" space_A cache_A "''A''"] registered
    by (simp add: first)
qed

end
